theory Spec2Isabelle
  imports Complex_Main "HOL-Library.AList"
begin

section \<open>Tensors\<close>

text \<open>
  A tensor is the list of its components (flattened); its shape is the number of
  components.  The arithmetic is over the reals: rounding of machine floats is not part
  of this development.  The elementwise operators of the numeric engine are only ever
  applied here to operands of one shape (see the shape lemmas below).
\<close>

type_synonym tensor = "real list"

definition shape :: "tensor \<Rightarrow> nat" where
  \<comment> \<open>Modelled from the spec: \<open>util.shape(variable)\<close>, the dimensions of a variable.\<close>
  "shape t = length t"

definition tensor_add :: "tensor \<Rightarrow> tensor \<Rightarrow> tensor" where
  \<comment> \<open>\<open>delta1 + delta2\<close>\<close>
  "tensor_add a b = map2 (+) a b"

definition tensor_sub :: "tensor \<Rightarrow> tensor \<Rightarrow> tensor" where
  \<comment> \<open>\<open>pert - prev_pert\<close>\<close>
  "tensor_sub a b = map2 (-) a b"

definition scalar_mul :: "real \<Rightarrow> tensor \<Rightarrow> tensor" where
  \<comment> \<open>\<open>direction * perturbation\<close>: a scalar times a tensor\<close>
  "scalar_mul c a = map (\<lambda>x. c * x) a"

definition mul_scalar :: "tensor \<Rightarrow> real \<Rightarrow> tensor" where
  \<comment> \<open>\<open>tf.random_normal(..) * self.learning_rate\<close>: a tensor times a scalar\<close>
  "mul_scalar a c = map (\<lambda>x. x * c) a"

definition div_int :: "tensor \<Rightarrow> int \<Rightarrow> tensor" where
  \<comment> \<open>\<open>delta / self.num_samples\<close>: true division by a Python int.  The constructor
      admits only \<open>num_samples > 0\<close>, so the divisor is never zero on an instance.\<close>
  "div_int a n = map (\<lambda>x. x / real_of_int n) a"

definition identity_operation :: "tensor \<Rightarrow> tensor" where
  \<comment> \<open>Modelled from the spec: \<open>util.identity_operation\<close>, a pass-through of its input.\<close>
  "identity_operation x = x"

definition random_normal :: "(nat \<Rightarrow> nat \<Rightarrow> real) \<Rightarrow> nat \<Rightarrow> nat \<Rightarrow> tensor" where
  \<comment> \<open>Modelled from the spec: random-normal sampling by shape.  The random source
      \<open>rnd\<close> (fixed by the seed) gives component \<open>j\<close> of the \<open>k\<close>-th draw.\<close>
  "random_normal rnd k n = map (rnd k) [0..<n]"


section \<open>The state a step runs on\<close>

type_synonym 'v arguments = "(string \<times> 'v) list"

text \<open>
  The events are a log of what a step did, in order: evaluations of the loss and of the
  reference, writes into the arguments mapping, applications of deltas (with the
  variables' new values) and calls of a wrapped optimizer's step.
\<close>

datatype 'v event =
    LossCall "'v arguments" "tensor list"
  | ReferenceCall "'v arguments" "tensor list"
  | SetItem string 'v
  | ApplyStep "tensor list" "tensor list"
  | StepCall "'v arguments"

record 'v world =
  variables :: "tensor list"
  arguments :: "'v arguments"
  draws :: nat
  trace :: "'v event list"

type_synonym 'v loss = "'v arguments \<Rightarrow> tensor list \<Rightarrow> real"

definition fn_loss_call :: "'v loss \<Rightarrow> 'v world \<Rightarrow> real \<times> 'v world" where
  \<comment> \<open>\<open>fn_loss(**arguments)\<close>: the loss of the current model, read off the variables.\<close>
  "fn_loss_call fn_loss w =
     (fn_loss (arguments w) (variables w),
      w\<lparr>trace := trace w @ [LossCall (arguments w) (variables w)]\<rparr>)"

definition apply_step :: "tensor list \<Rightarrow> 'v world \<Rightarrow> 'v world" where
  \<comment> \<open>Modelled from the spec: \<open>Optimizer.apply_step(variables, deltas)\<close> applies the
      deltas additively to the variables.\<close>
  "apply_step deltas w =
     (let vs = map2 tensor_add (variables w) deltas
      in w\<lparr>variables := vs, trace := trace w @ [ApplyStep deltas vs]\<rparr>)"

fun while_loop :: "('s \<Rightarrow> bool) \<Rightarrow> ('s \<Rightarrow> 's) \<Rightarrow> 's \<Rightarrow> nat \<Rightarrow> 's" where
  \<comment> \<open>Modelled from the spec: the engine's bounded loop construct
      \<open>(cond, body, loop_vars, maximum_iterations)\<close>.\<close>
  "while_loop cond body loop_vars 0 = loop_vars"
| "while_loop cond body loop_vars (Suc n) =
     (if cond loop_vars then while_loop cond body (body loop_vars) n else loop_vars)"

definition tf_always_true :: "'s \<Rightarrow> bool" where
  \<comment> \<open>Modelled from the spec: \<open>util.tf_always_true\<close>, the always-true continuation.\<close>
  "tf_always_true s = True"


section \<open>Construction\<close>

datatype pyval = PyNone | PyBool bool | PyInt int | PyFloat real | PyStr string

datatype error = AssertionError | TypeError

fun isinstance_float :: "pyval \<Rightarrow> bool" where
  "isinstance_float (PyFloat x) = True"
| "isinstance_float v = False"

fun isinstance_int :: "pyval \<Rightarrow> bool" where
  \<comment> \<open>\<open>bool\<close> is a subclass of \<open>int\<close>\<close>
  "isinstance_int (PyInt i) = True"
| "isinstance_int (PyBool b) = True"
| "isinstance_int v = False"

fun isinstance_bool :: "pyval \<Rightarrow> bool" where
  "isinstance_bool (PyBool b) = True"
| "isinstance_bool v = False"

fun float_of :: "pyval \<Rightarrow> real" where
  "float_of (PyFloat x) = x"
| "float_of v = 0"

fun int_of :: "pyval \<Rightarrow> int" where
  \<comment> \<open>\<open>True\<close> is the integer 1 and \<open>False\<close> the integer 0\<close>
  "int_of (PyInt i) = i"
| "int_of (PyBool b) = (if b then 1 else 0)"
| "int_of v = 0"

fun bool_of :: "pyval \<Rightarrow> bool" where
  "bool_of (PyBool b) = b"
| "bool_of v = False"

record optimizer_fields =
  name :: string
  unroll_loop :: bool

record evolutionary = optimizer_fields +
  learning_rate :: real
  num_samples :: int

record ('t, 'k, 'v) multi_step = optimizer_fields +
  optimizer :: "'t \<Rightarrow> 'k \<Rightarrow> 'v world \<Rightarrow> tensor list \<times> 'v world"
  num_steps :: int

definition Evolutionary_init ::
  "string \<Rightarrow> pyval \<Rightarrow> pyval option \<Rightarrow> pyval option \<Rightarrow> error + evolutionary" where
  \<comment> \<open>\<open>Evolutionary.__init__(self, name, learning_rate, num_samples=1, unroll_loop=False)\<close>\<close>
  "Evolutionary_init nm lr num_samples_arg unroll_loop_arg =
     (let ns = (case num_samples_arg of None \<Rightarrow> PyInt 1 | Some v \<Rightarrow> v);
          ul = (case unroll_loop_arg of None \<Rightarrow> PyBool False | Some v \<Rightarrow> v)
      in if \<not> (isinstance_float lr \<and> float_of lr > 0) then Inl AssertionError
         else if \<not> (isinstance_int ns \<and> int_of ns > 0) then Inl AssertionError
         else if \<not> isinstance_bool ul then Inl AssertionError
         else Inr \<lparr>name = nm, unroll_loop = bool_of ul,
                   learning_rate = float_of lr, num_samples = int_of ns\<rparr>)"

definition MultiStep_init ::
  "string \<Rightarrow> ('t \<Rightarrow> 'k \<Rightarrow> 'v world \<Rightarrow> tensor list \<times> 'v world) \<Rightarrow> pyval option \<Rightarrow> pyval option
     \<Rightarrow> error + ('t, 'k, 'v) multi_step" where
  \<comment> \<open>\<open>MultiStep.__init__(self, name, optimizer, num_steps=10, unroll_loop=False)\<close>\<close>
  "MultiStep_init nm opt num_steps_arg unroll_loop_arg =
     (let ns = (case num_steps_arg of None \<Rightarrow> PyInt 10 | Some v \<Rightarrow> v);
          ul = (case unroll_loop_arg of None \<Rightarrow> PyBool False | Some v \<Rightarrow> v)
      in if \<not> (isinstance_int ns \<and> int_of ns > 0) then Inl AssertionError
         else if \<not> isinstance_bool ul then Inl AssertionError
         else Inr \<lparr>name = nm, unroll_loop = bool_of ul,
                   optimizer = opt, num_steps = int_of ns\<rparr>)"


section \<open>The evolutionary optimizer\<close>

fun sample_perturbations ::
  "(nat \<Rightarrow> nat \<Rightarrow> real) \<Rightarrow> real \<Rightarrow> tensor list \<Rightarrow> nat \<Rightarrow> tensor list" where
  \<comment> \<open>\<open>[tf.random_normal(shape=util.shape(variable)) * self.learning_rate
         for variable in variables]\<close>, the \<open>k\<close>-th draw being the next one\<close>
  "sample_perturbations rnd lr [] k = []"
| "sample_perturbations rnd lr (variable # vs) k =
     mul_scalar (random_normal rnd k (shape variable)) lr # sample_perturbations rnd lr vs (Suc k)"

definition draw_perturbations ::
  "(nat \<Rightarrow> nat \<Rightarrow> real) \<Rightarrow> real \<Rightarrow> 'v world \<Rightarrow> tensor list \<times> 'v world" where
  "draw_perturbations rnd lr w =
     (sample_perturbations rnd lr (variables w) (draws w),
      w\<lparr>draws := draws w + length (variables w)\<rparr>)"

definition first_sample ::
  "evolutionary \<Rightarrow> (nat \<Rightarrow> nat \<Rightarrow> real) \<Rightarrow> 'v loss \<Rightarrow> 'v world
     \<Rightarrow> real \<times> tensor list \<times> tensor list \<times> 'v world" where
  \<comment> \<open>lines 61 to 73 of \<open>Evolutionary.tf_step\<close>\<close>
  "first_sample self rnd fn_loss w =
     (let (unperturbed_loss, w1) = fn_loss_call fn_loss w;
          (perturbations, w2) = draw_perturbations rnd (learning_rate self) w1;
          w3 = apply_step perturbations w2;
          (perturbed_loss, w4) = fn_loss_call fn_loss w3;
          direction = sgn (unperturbed_loss - perturbed_loss);
          deltas_sum = map (\<lambda>perturbation. scalar_mul direction perturbation) perturbations
      in (unperturbed_loss, deltas_sum, perturbations, w4))"

definition unrolled_iteration ::
  "evolutionary \<Rightarrow> (nat \<Rightarrow> nat \<Rightarrow> real) \<Rightarrow> 'v loss \<Rightarrow> real
     \<Rightarrow> tensor list \<times> tensor list \<times> tensor list \<times> 'v world
     \<Rightarrow> tensor list \<times> tensor list \<times> tensor list \<times> 'v world" where
  \<comment> \<open>lines 80 to 98: one pass of the unrolled \<open>for\<close> loop, over the Python variables
      \<open>deltas_sum\<close>, \<open>perturbations\<close> and \<open>previous_perturbations\<close>\<close>
  "unrolled_iteration self rnd fn_loss unperturbed_loss st =
     (case st of (deltas_sum, old_perturbations, previous_perturbations, w) \<Rightarrow>
       (let (perturbations, w1) = draw_perturbations rnd (learning_rate self) w;
            perturbation_deltas =
              map2 (\<lambda>pert prev_pert. tensor_sub pert prev_pert) perturbations previous_perturbations;
            w2 = apply_step perturbation_deltas w1;
            previous_perturbations' = perturbations;
            (perturbed_loss, w3) = fn_loss_call fn_loss w2;
            direction = sgn (unperturbed_loss - perturbed_loss);
            deltas_sum' =
              map2 (\<lambda>delta perturbation. tensor_add delta (scalar_mul direction perturbation))
                deltas_sum perturbations
        in (deltas_sum', perturbations, previous_perturbations', w3)))"

definition body ::
  "evolutionary \<Rightarrow> (nat \<Rightarrow> nat \<Rightarrow> real) \<Rightarrow> 'v loss \<Rightarrow> real
     \<Rightarrow> tensor list \<times> tensor list \<times> 'v world \<Rightarrow> tensor list \<times> tensor list \<times> 'v world" where
  \<comment> \<open>lines 102 to 123: the body of the bounded loop, over the loop variables
      \<open>(deltas_sum, previous_perturbations)\<close>\<close>
  "body self rnd fn_loss unperturbed_loss st =
     (case st of (deltas_sum, previous_perturbations, w) \<Rightarrow>
       (let (perturbations, w1) = draw_perturbations rnd (learning_rate self) w;
            perturbation_deltas =
              map2 (\<lambda>pert prev_pert. tensor_sub pert prev_pert) perturbations previous_perturbations;
            w2 = apply_step perturbation_deltas w1;
            (perturbed_loss, w3) = fn_loss_call fn_loss w2;
            direction = sgn (unperturbed_loss - perturbed_loss);
            deltas_sum' =
              map2 (\<lambda>delta perturbation. tensor_add delta (scalar_mul direction perturbation))
                deltas_sum perturbations
        in (deltas_sum', perturbations, w3)))"

definition sampling ::
  "evolutionary \<Rightarrow> (nat \<Rightarrow> nat \<Rightarrow> real) \<Rightarrow> 'v loss \<Rightarrow> 'v world
     \<Rightarrow> tensor list \<times> tensor list \<times> 'v world" where
  \<comment> \<open>lines 61 to 128: all samples, by either strategy; the result is
      \<open>(deltas_sum, perturbations)\<close> and the state reached\<close>
  "sampling self rnd fn_loss w =
     (case first_sample self rnd fn_loss w of
        (unperturbed_loss, deltas_sum, perturbations, w1) \<Rightarrow>
          if unroll_loop self then
            (case fold (\<lambda>sample. unrolled_iteration self rnd fn_loss unperturbed_loss)
                    [0..<nat (num_samples self - 1)]
                    (deltas_sum, perturbations, perturbations, w1) of
               (deltas_sum', perturbations', previous_perturbations, w2) \<Rightarrow>
                 (deltas_sum', perturbations', w2))
          else
            while_loop tf_always_true (body self rnd fn_loss unperturbed_loss)
              (deltas_sum, perturbations, w1) (nat (num_samples self - 1)))"

definition Evolutionary_tf_step ::
  "evolutionary \<Rightarrow> (nat \<Rightarrow> nat \<Rightarrow> real) \<Rightarrow> 'v loss \<Rightarrow> 'v world \<Rightarrow> tensor list \<times> 'v world" where
  \<comment> \<open>\<open>Evolutionary.tf_step(self, time, variables, arguments, fn_loss)\<close>; the variables
      and the arguments are those of the state, \<open>time\<close> is not used\<close>
  "Evolutionary_tf_step self rnd fn_loss w =
     (case sampling self rnd fn_loss w of
        (deltas_sum, perturbations, w2) \<Rightarrow>
          (let deltas = map (\<lambda>delta. div_int delta (num_samples self)) deltas_sum;
               perturbation_deltas =
                 map2 (\<lambda>delta pert. tensor_sub delta pert) deltas perturbations;
               w3 = apply_step perturbation_deltas w2
           in (map identity_operation deltas, w3)))"


section \<open>The multi-step meta optimizer\<close>

definition optimizer_step ::
  "('t, 'k, 'v) multi_step \<Rightarrow> 't \<Rightarrow> 'k \<Rightarrow> 'v world \<Rightarrow> tensor list \<times> 'v world" where
  \<comment> \<open>\<open>self.optimizer.step(time=time, variables=variables, arguments=arguments, **kwargs)\<close>:
      the wrapped optimizer is handed the arguments mapping of the state\<close>
  "optimizer_step self time kwargs w =
     optimizer self time kwargs (w\<lparr>trace := trace w @ [StepCall (arguments w)]\<rparr>)"

definition unrolled_step ::
  "('t, 'k, 'v) multi_step \<Rightarrow> 't \<Rightarrow> 'k \<Rightarrow> tensor list \<times> 'v world \<Rightarrow> tensor list \<times> 'v world" where
  \<comment> \<open>lines 68 to 72: one pass of the unrolled \<open>for\<close> loop\<close>
  "unrolled_step self time kwargs st =
     (case st of (deltas, w) \<Rightarrow>
       (let (step_deltas, w1) = optimizer_step self time kwargs w;
            deltas' = map2 (\<lambda>delta1 delta2. tensor_add delta1 delta2) deltas step_deltas
        in (deltas', w1)))"

definition step_body ::
  "('t, 'k, 'v) multi_step \<Rightarrow> 't \<Rightarrow> 'k \<Rightarrow> tensor list \<times> 'v world \<Rightarrow> tensor list \<times> 'v world" where
  \<comment> \<open>lines 78 to 84: \<open>body(deltas)\<close> of the bounded loop\<close>
  "step_body self time kwargs st =
     (case st of (deltas, w) \<Rightarrow>
       (let (step_deltas, w1) = optimizer_step self time kwargs w;
            deltas' = map2 (\<lambda>delta1 delta2. tensor_add delta1 delta2) deltas step_deltas
        in (deltas', w1)))"

definition set_reference :: "('v arguments \<Rightarrow> tensor list \<Rightarrow> 'v) \<Rightarrow> 'v world \<Rightarrow> 'v world" where
  \<comment> \<open>line 60: \<open>arguments['reference'] = fn_reference(**arguments)\<close>, a write into the
      caller's mapping\<close>
  "set_reference f w =
     (let reference = f (arguments w) (variables w)
      in w\<lparr>arguments := AList.update ''reference'' reference (arguments w),
           trace := trace w @ [ReferenceCall (arguments w) (variables w),
                               SetItem ''reference'' reference]\<rparr>)"

definition MultiStep_tf_step ::
  "('t, 'k, 'v) multi_step \<Rightarrow> 't \<Rightarrow> ('v arguments \<Rightarrow> tensor list \<Rightarrow> 'v) option \<Rightarrow> 'k \<Rightarrow> 'v world
     \<Rightarrow> error + tensor list \<times> 'v world" where
  \<comment> \<open>\<open>MultiStep.tf_step(self, time, variables, arguments, fn_reference=None, **kwargs)\<close>;
      calling \<open>None\<close> raises \<open>TypeError\<close> before anything else is done\<close>
  "MultiStep_tf_step self time fn_reference kwargs w =
     (case fn_reference of
        None \<Rightarrow> Inl TypeError
      | Some f \<Rightarrow>
          (let w0 = set_reference f w;
               (deltas, w1) = optimizer_step self time kwargs w0
           in if unroll_loop self then
                Inr (fold (\<lambda>_. unrolled_step self time kwargs)
                       [0..<nat (num_steps self - 1)] (deltas, w1))
              else
                Inr (while_loop tf_always_true (step_body self time kwargs)
                       (deltas, w1) (nat (num_steps self - 1)))))"


section \<open>Reading the log\<close>

fun loss_calls :: "'v event list \<Rightarrow> ('v arguments \<times> tensor list) list" where
  "loss_calls [] = []"
| "loss_calls (LossCall a vs # es) = (a, vs) # loss_calls es"
| "loss_calls (e # es) = loss_calls es"

fun reference_calls :: "'v event list \<Rightarrow> ('v arguments \<times> tensor list) list" where
  "reference_calls [] = []"
| "reference_calls (ReferenceCall a vs # es) = (a, vs) # reference_calls es"
| "reference_calls (e # es) = reference_calls es"

fun writes :: "'v event list \<Rightarrow> (string \<times> 'v) list" where
  "writes [] = []"
| "writes (SetItem k v # es) = (k, v) # writes es"
| "writes (e # es) = writes es"


fun step_calls :: "'v event list \<Rightarrow> 'v arguments list" where
  "step_calls [] = []"
| "step_calls (StepCall a # es) = a # step_calls es"
| "step_calls (e # es) = step_calls es"

definition new_events :: "'v world \<Rightarrow> 'v world \<Rightarrow> 'v event list" where
  \<comment> \<open>what a step that started in \<open>w\<close> and ended in \<open>w'\<close> appended to the log\<close>
  "new_events w w' = drop (length (trace w)) (trace w')"


section \<open>The samples of one evolutionary step, in closed form\<close>

text \<open>
  Sample \<open>i\<close> (counted from 0) of a step started in \<open>w\<close> draws the perturbations
  \<open>perturbations_at self rnd w i\<close>; the variables then stand at \<open>perturbed_at self rnd w i\<close>,
  and the sample's direction compares the loss there with the loss at the variables of \<open>w\<close>.
\<close>

definition perturbations_at ::
  "evolutionary \<Rightarrow> (nat \<Rightarrow> nat \<Rightarrow> real) \<Rightarrow> 'v world \<Rightarrow> nat \<Rightarrow> tensor list" where
  "perturbations_at self rnd w i =
     sample_perturbations rnd (learning_rate self) (variables w)
       (draws w + i * length (variables w))"

definition perturbed_at ::
  "evolutionary \<Rightarrow> (nat \<Rightarrow> nat \<Rightarrow> real) \<Rightarrow> 'v world \<Rightarrow> nat \<Rightarrow> tensor list" where
  "perturbed_at self rnd w i = map2 tensor_add (variables w) (perturbations_at self rnd w i)"

definition direction_at ::
  "evolutionary \<Rightarrow> (nat \<Rightarrow> nat \<Rightarrow> real) \<Rightarrow> 'v loss \<Rightarrow> 'v world \<Rightarrow> nat \<Rightarrow> real" where
  "direction_at self rnd fn_loss w i =
     sgn (fn_loss (arguments w) (variables w) - fn_loss (arguments w) (perturbed_at self rnd w i))"

fun deltas_sum_at ::
  "evolutionary \<Rightarrow> (nat \<Rightarrow> nat \<Rightarrow> real) \<Rightarrow> 'v loss \<Rightarrow> 'v world \<Rightarrow> nat \<Rightarrow> tensor list" where
  "deltas_sum_at self rnd fn_loss w 0 =
     map (scalar_mul (direction_at self rnd fn_loss w 0)) (perturbations_at self rnd w 0)"
| "deltas_sum_at self rnd fn_loss w (Suc t) =
     map2 (\<lambda>delta p. tensor_add delta (scalar_mul (direction_at self rnd fn_loss w (Suc t)) p))
       (deltas_sum_at self rnd fn_loss w t) (perturbations_at self rnd w (Suc t))"

fun events_at ::
  "evolutionary \<Rightarrow> (nat \<Rightarrow> nat \<Rightarrow> real) \<Rightarrow> 'v world \<Rightarrow> nat \<Rightarrow> 'v event list" where
  "events_at self rnd w 0 =
     [ApplyStep (perturbations_at self rnd w 0) (perturbed_at self rnd w 0),
      LossCall (arguments w) (perturbed_at self rnd w 0)]"
| "events_at self rnd w (Suc t) =
     events_at self rnd w t @
     [ApplyStep
        (map2 tensor_sub (perturbations_at self rnd w (Suc t)) (perturbations_at self rnd w t))
        (perturbed_at self rnd w (Suc t)),
      LossCall (arguments w) (perturbed_at self rnd w (Suc t))]"

definition world_at ::
  "evolutionary \<Rightarrow> (nat \<Rightarrow> nat \<Rightarrow> real) \<Rightarrow> 'v world \<Rightarrow> nat \<Rightarrow> 'v world" where
  "world_at self rnd w t =
     w\<lparr>variables := perturbed_at self rnd w t,
       draws := draws w + Suc t * length (variables w),
       trace := trace w @ LossCall (arguments w) (variables w) # events_at self rnd w t\<rparr>"


section \<open>Sequential runs of a step\<close>

fun run_steps :: "('w \<Rightarrow> tensor list \<times> 'w) \<Rightarrow> nat \<Rightarrow> 'w \<Rightarrow> tensor list list \<times> 'w" where
  \<comment> \<open>the delta sequences of \<open>n\<close> invocations of a step, each on the state the one before
      left, and the state after the last\<close>
  "run_steps step 0 w = ([], w)"
| "run_steps step (Suc n) w =
     (case step w of (d, w1) \<Rightarrow>
        (case run_steps step n w1 of (ds, w2) \<Rightarrow> (d # ds, w2)))"



section \<open>What the specification speaks of\<close>


definition leaves_arguments :: "('v world \<Rightarrow> tensor list \<times> 'v world) \<Rightarrow> bool" where
  \<comment> \<open>a wrapped optimizer's step that does not write into the arguments mapping it is
      handed, and only appends to the log\<close>
  "leaves_arguments step =
     (\<forall>w. arguments (snd (step w)) = arguments w \<and>
          (\<exists>es. trace (snd (step w)) = trace w @ es \<and> writes es = []))"


section \<open>Concrete instances\<close>

definition quadratic_loss :: "nat loss" where
  "quadratic_loss a vs = (sum_list (concat vs) - 3)\<^sup>2"

definition counting_source :: "nat \<Rightarrow> nat \<Rightarrow> real" where
  "counting_source k j = real k + 1"

definition constant_source :: "nat \<Rightarrow> nat \<Rightarrow> real" where
  "constant_source k j = 2"

definition two_samples :: evolutionary where
  "two_samples =
     \<lparr>name = ''evolutionary'', unroll_loop = False, learning_rate = 1/2, num_samples = 2\<rparr>"

definition three_samples :: evolutionary where
  "three_samples =
     \<lparr>name = ''evolutionary'', unroll_loop = True, learning_rate = 1/2, num_samples = 3\<rparr>"

definition start :: "nat world" where
  "start = \<lparr>variables = [[0]], arguments = [(''batch'', 5)], draws = 0, trace = []\<rparr>"

definition constant_step :: "unit \<Rightarrow> unit \<Rightarrow> nat world \<Rightarrow> tensor list \<times> nat world" where
  \<comment> \<open>a wrapped optimizer whose every step proposes and applies the delta 1\<close>
  "constant_step time kwargs w = ([[1]], apply_step [[1]] w)"

definition three_steps :: "(unit, unit, nat) multi_step" where
  "three_steps =
     \<lparr>name = ''multi_step'', unroll_loop = False, optimizer = constant_step, num_steps = 3\<rparr>"


section \<open>Both loop strategies run the body the same number of times\<close>

lemma fold_const_funpow: "fold (\<lambda>_. f) xs s = (f ^^ length xs) s"
  by (induction xs arbitrary: s) (simp_all add: funpow_swap1)

lemma while_loop_funpow: "while_loop tf_always_true b s n = (b ^^ n) s"
  by (induction n arbitrary: s) (simp_all add: tf_always_true_def funpow_swap1)

lemma unrolled_iteration_body:
  "unrolled_iteration self rnd fn_loss ul (ds, old, prev, w) =
     (case body self rnd fn_loss ul (ds, prev, w) of (ds', ps', w') \<Rightarrow> (ds', ps', ps', w'))"
  by (simp add: unrolled_iteration_def body_def Let_def split: prod.splits)

lemma unrolled_funpow:
  "(unrolled_iteration self rnd fn_loss ul ^^ n) (ds, ps, ps, w) =
     (case (body self rnd fn_loss ul ^^ n) (ds, ps, w) of (ds', ps', w') \<Rightarrow> (ds', ps', ps', w'))"
proof (induction n)
  case 0
  show ?case by simp
next
  case (Suc n)
  obtain ds' ps' w' where b: "(body self rnd fn_loss ul ^^ n) (ds, ps, w) = (ds', ps', w')"
    by (cases "(body self rnd fn_loss ul ^^ n) (ds, ps, w)") auto
  show ?case
    using Suc b by (simp add: unrolled_iteration_body)
qed

lemma sampling_funpow:
  "sampling self rnd fn_loss w =
     (case first_sample self rnd fn_loss w of
        (ul, ds, ps, w1) \<Rightarrow> (body self rnd fn_loss ul ^^ nat (num_samples self - 1)) (ds, ps, w1))"
  by (simp add: sampling_def fold_const_funpow while_loop_funpow unrolled_funpow
      split: prod.splits)

lemma first_sample_unroll [simp]:
  "first_sample (self\<lparr>unroll_loop := b\<rparr>) = first_sample self"
  by (simp add: first_sample_def fun_eq_iff)

lemma body_unroll [simp]: "body (self\<lparr>unroll_loop := b\<rparr>) = body self"
  by (simp add: body_def fun_eq_iff)


lemma optimizer_step_unroll [simp]: "optimizer_step (ms\<lparr>unroll_loop := b\<rparr>) = optimizer_step ms"
  by (simp add: optimizer_step_def fun_eq_iff)

lemma step_body_unroll [simp]: "step_body (ms\<lparr>unroll_loop := b\<rparr>) = step_body ms"
  by (simp add: step_body_def fun_eq_iff)

lemma unrolled_step_body: "unrolled_step ms = step_body ms"
  by (simp add: unrolled_step_def step_body_def fun_eq_iff)

lemma MultiStep_funpow:
  "MultiStep_tf_step ms time (Some f) kwargs w =
     Inr ((step_body ms time kwargs ^^ nat (num_steps ms - 1))
            (optimizer_step ms time kwargs (set_reference f w)))"
  by (simp add: MultiStep_tf_step_def fold_const_funpow while_loop_funpow unrolled_step_body
      Let_def split: prod.splits)


section \<open>The closed form of the samples\<close>

lemma shapes_sample_perturbations:
  "map length (sample_perturbations rnd lr vs k) = map length vs"
  by (induction vs arbitrary: k) (simp_all add: mul_scalar_def random_normal_def shape_def)

lemma sample_perturbations_shapes_only:
  "map length vs = map length vs' \<Longrightarrow>
     sample_perturbations rnd lr vs k = sample_perturbations rnd lr vs' k"
proof (induction vs arbitrary: vs' k)
  case Nil
  then show ?case by simp
next
  case (Cons v vs)
  then obtain v' us where "vs' = v' # us" by (cases vs') auto
  with Cons show ?case by (simp add: shape_def)
qed

lemma length_tensor_add: "length a = length b \<Longrightarrow> length (tensor_add a b) = length a"
  by (simp add: tensor_add_def)

lemma shapes_add:
  "map length vs = map length ps \<Longrightarrow> map length (map2 tensor_add vs ps) = map length vs"
proof (induction vs arbitrary: ps)
  case Nil
  then show ?case by simp
next
  case (Cons v vs)
  then obtain p qs where "ps = p # qs" by (cases ps) auto
  with Cons show ?case by (simp add: tensor_add_def)
qed

lemma tensor_telescope:
  "length v = length p \<Longrightarrow> length v = length q \<Longrightarrow>
     tensor_add (tensor_add v p) (tensor_sub q p) = tensor_add v q"
  by (rule nth_equalityI) (simp_all add: tensor_add_def tensor_sub_def)

lemma telescope:
  "map length vs = map length ps \<Longrightarrow> map length vs = map length qs \<Longrightarrow>
     map2 tensor_add (map2 tensor_add vs ps) (map2 tensor_sub qs ps) = map2 tensor_add vs qs"
proof (induction vs arbitrary: ps qs)
  case Nil
  then show ?case by simp
next
  case (Cons v vs)
  then obtain p ps' where p: "ps = p # ps'" by (cases ps) auto
  from Cons obtain q qs' where q: "qs = q # qs'" by (cases qs) auto
  from Cons p q show ?case by (simp add: tensor_telescope)
qed

lemma shapes_perturbations_at: "map length (perturbations_at self rnd w i) = map length (variables w)"
  by (simp add: perturbations_at_def shapes_sample_perturbations)

lemma shapes_perturbed_at: "map length (perturbed_at self rnd w i) = map length (variables w)"
  unfolding perturbed_at_def by (rule shapes_add) (simp add: shapes_perturbations_at)

lemma length_perturbed_at: "length (perturbed_at self rnd w i) = length (variables w)"
  using shapes_perturbed_at [of self rnd w i] by (metis length_map)

lemma first_sample_closed:
  "first_sample self rnd fn_loss w =
     (fn_loss (arguments w) (variables w), deltas_sum_at self rnd fn_loss w 0,
      perturbations_at self rnd w 0, world_at self rnd w 0)"
  by (simp add: first_sample_def fn_loss_call_def draw_perturbations_def apply_step_def
      Let_def world_at_def perturbations_at_def perturbed_at_def direction_at_def)

lemma body_closed:
  "body self rnd fn_loss (fn_loss (arguments w) (variables w))
     (deltas_sum_at self rnd fn_loss w t, perturbations_at self rnd w t, world_at self rnd w t) =
   (deltas_sum_at self rnd fn_loss w (Suc t), perturbations_at self rnd w (Suc t),
    world_at self rnd w (Suc t))"
proof -
  have s: "sample_perturbations rnd (learning_rate self) (perturbed_at self rnd w t)
             (draws w + (length (variables w) + t * length (variables w))) =
           perturbations_at self rnd w (Suc t)"
    unfolding perturbations_at_def
    by (simp add: sample_perturbations_shapes_only [OF shapes_perturbed_at])
  have t: "map2 tensor_add (perturbed_at self rnd w t)
             (map2 tensor_sub (perturbations_at self rnd w (Suc t)) (perturbations_at self rnd w t)) =
           perturbed_at self rnd w (Suc t)"
    unfolding perturbed_at_def
    by (rule telescope) (simp_all add: shapes_perturbations_at)
  show ?thesis
    by (simp add: body_def fn_loss_call_def draw_perturbations_def apply_step_def Let_def
        world_at_def s t length_perturbed_at direction_at_def)
qed

lemma body_funpow_closed:
  "(body self rnd fn_loss (fn_loss (arguments w) (variables w)) ^^ t)
     (deltas_sum_at self rnd fn_loss w 0, perturbations_at self rnd w 0, world_at self rnd w 0) =
   (deltas_sum_at self rnd fn_loss w t, perturbations_at self rnd w t, world_at self rnd w t)"
  by (induction t) (simp_all add: body_closed)

lemma sampling_closed:
  "sampling self rnd fn_loss w =
     (deltas_sum_at self rnd fn_loss w (nat (num_samples self - 1)),
      perturbations_at self rnd w (nat (num_samples self - 1)),
      world_at self rnd w (nat (num_samples self - 1)))"
  using body_funpow_closed [where t = "nat (num_samples self - 1)" and self = self and w = w]
  by (simp add: sampling_funpow first_sample_closed)


lemma loss_calls_append: "loss_calls (xs @ ys) = loss_calls xs @ loss_calls ys"
  by (induction xs rule: loss_calls.induct) simp_all

lemma writes_append: "writes (xs @ ys) = writes xs @ writes ys"
  by (induction xs rule: writes.induct) simp_all


lemma step_calls_append: "step_calls (xs @ ys) = step_calls xs @ step_calls ys"
  by (induction xs rule: step_calls.induct) simp_all

lemma reference_calls_append: "reference_calls (xs @ ys) = reference_calls xs @ reference_calls ys"
  by (induction xs rule: reference_calls.induct) simp_all

lemma loss_calls_events_at:
  "loss_calls (events_at self rnd w t) =
     map (\<lambda>i. (arguments w, perturbed_at self rnd w i)) [0..<Suc t]"
  by (induction t) (simp_all add: loss_calls_append)

lemma writes_events_at: "writes (events_at self rnd w t) = []"
  by (induction t) (simp_all add: writes_append)



lemma shapes_nth:
  assumes "map length xs = map length ys"
  shows "length xs = length ys" and "i < length ys \<Longrightarrow> length (xs ! i) = length (ys ! i)"
proof -
  show l: "length xs = length ys" using assms by (rule map_eq_imp_length_eq)
  show "length (xs ! i) = length (ys ! i)" if "i < length ys"
  proof -
    have "map length xs ! i = map length ys ! i" using assms by simp
    then show ?thesis using that l by simp
  qed
qed

lemma shapes_deltas_sum_at:
  "map length (deltas_sum_at self rnd fn_loss w t) = map length (variables w)"
proof (induction t)
  case 0
  show ?case
    using shapes_perturbations_at [of self rnd w 0] by (simp add: scalar_mul_def comp_def)
next
  case (Suc t)
  have "map length (map2 (\<lambda>delta p. tensor_add delta (scalar_mul c p)) ds ps) = map length ds"
    if "map length ds = map length ps" for c ds ps
    using that
  proof (induction ds arbitrary: ps)
    case Nil
    then show ?case by simp
  next
    case (Cons d ds)
    then obtain p qs where "ps = p # qs" by (cases ps) auto
    with Cons show ?case by (simp add: tensor_add_def scalar_mul_def)
  qed
  from this [of "deltas_sum_at self rnd fn_loss w t" "perturbations_at self rnd w (Suc t)"]
  show ?case
    using Suc shapes_perturbations_at [of self rnd w "Suc t"] by simp
qed

lemma shapes_div_int: "map length (map (\<lambda>d. div_int d n) ds) = map length ds"
  by (simp add: div_int_def comp_def)

lemma map_identity_operation: "map identity_operation ds = ds"
  by (induction ds) (simp_all add: identity_operation_def)

lemma Evolutionary_tf_step_closed:
  "Evolutionary_tf_step self rnd fn_loss w =
     (let k = nat (num_samples self - 1);
          deltas = map (\<lambda>d. div_int d (num_samples self)) (deltas_sum_at self rnd fn_loss w k)
      in (deltas,
          w\<lparr>variables := map2 tensor_add (variables w) deltas,
            draws := draws w + Suc k * length (variables w),
            trace := trace w @ LossCall (arguments w) (variables w) # events_at self rnd w k @
              [ApplyStep (map2 tensor_sub deltas (perturbations_at self rnd w k))
                 (map2 tensor_add (variables w) deltas)]\<rparr>))"
proof -
  define k where "k = nat (num_samples self - 1)"
  define deltas where
    "deltas = map (\<lambda>d. div_int d (num_samples self)) (deltas_sum_at self rnd fn_loss w k)"
  have sh: "map length (variables w) = map length deltas"
    unfolding deltas_def
    using shapes_div_int [of "num_samples self" "deltas_sum_at self rnd fn_loss w k"]
      shapes_deltas_sum_at [of self rnd fn_loss w k]
    by (simp del: map_map)
  have t: "map2 tensor_add (perturbed_at self rnd w k)
             (map2 tensor_sub deltas (perturbations_at self rnd w k)) =
           map2 tensor_add (variables w) deltas"
    unfolding perturbed_at_def
    by (rule telescope) (simp_all add: shapes_perturbations_at sh)
  show ?thesis
    using t
    by (simp add: Evolutionary_tf_step_def sampling_closed Let_def apply_step_def world_at_def
        map_identity_operation k_def [symmetric] deltas_def [symmetric])
qed

lemma new_events_append: "trace w' = trace w @ es \<Longrightarrow> new_events w w' = es"
  by (simp add: new_events_def)



lemma map2_contribution:
  "map2 (\<lambda>delta p. tensor_add delta (g p)) ds ps = map2 tensor_add ds (map g ps)"
  by (simp add: zip_map2 split_def)






lemma step_body_run:
  "(step_body ms time kwargs ^^ n) (d, w) =
     (case run_steps (optimizer_step ms time kwargs) n w of
        (ds, w') \<Rightarrow> (foldl (map2 tensor_add) d ds, w'))"
proof (induction n arbitrary: d w)
  case 0
  show ?case by simp
next
  case (Suc n)
  obtain d1 w1 where s: "optimizer_step ms time kwargs w = (d1, w1)"
    by (cases "optimizer_step ms time kwargs w") auto
  have "(step_body ms time kwargs ^^ Suc n) (d, w) =
          (step_body ms time kwargs ^^ n) (map2 tensor_add d d1, w1)"
    using s by (simp add: funpow_swap1 step_body_def)
  then show ?case
    using s by (simp add: Suc.IH split: prod.splits)
qed

lemma run_steps_length: "run_steps step n w = (ds, w') \<Longrightarrow> length ds = n"
  by (induction n arbitrary: w ds) (auto split: prod.splits)

lemma foldl_sum_nth:
  "\<forall>ds \<in> set dss. map length ds = map length d \<Longrightarrow>
     map length (foldl (map2 tensor_add) d dss) = map length d \<and>
     (i < length d \<longrightarrow> j < length (d ! i) \<longrightarrow>
        foldl (map2 tensor_add) d dss ! i ! j = d ! i ! j + (\<Sum>ds\<leftarrow>dss. ds ! i ! j))"
proof (induction dss arbitrary: d)
  case Nil
  show ?case by simp
next
  case (Cons x dss)
  have x: "map length x = map length d" and rest: "\<forall>ds \<in> set dss. map length ds = map length d"
    using Cons.prems by simp_all
  let ?d = "map2 tensor_add d x"
  have sh: "map length ?d = map length d"
    by (rule shapes_add) (simp add: x)
  have rest': "\<forall>ds \<in> set dss. map length ds = map length ?d"
    using rest sh by simp
  note ih = Cons.IH [OF rest']
  have a: "map length (foldl (map2 tensor_add) d (x # dss)) = map length d"
    using ih sh by simp
  have b: "foldl (map2 tensor_add) d (x # dss) ! i ! j = d ! i ! j + (\<Sum>ds\<leftarrow>x # dss. ds ! i ! j)"
    if i: "i < length d" and j: "j < length (d ! i)"
  proof -
    have li: "i < length ?d" using i shapes_nth(1) [OF sh] by simp
    have lx: "i < length x" using i shapes_nth(1) [OF x] by simp
    have lj: "j < length (?d ! i)" using i j shapes_nth(2) [OF sh] by simp
    have lxj: "j < length (x ! i)" using i j shapes_nth(2) [OF x] by simp
    have "?d ! i ! j = d ! i ! j + x ! i ! j"
      using i j lx lxj by (simp add: tensor_add_def)
    then show ?thesis
      using ih li lj by simp
  qed
  show ?case using a b by blast
qed

lemma optimizer_step_frame:
  assumes "leaves_arguments (optimizer ms time kwargs)"
    and "optimizer_step ms time kwargs w = (d, w1)"
  shows "arguments w1 = arguments w"
    and "\<exists>es. trace w1 = trace w @ StepCall (arguments w) # es \<and> writes es = []"
proof -
  let ?w = "w\<lparr>trace := trace w @ [StepCall (arguments w)]\<rparr>"
  have e: "w1 = snd (optimizer ms time kwargs ?w)"
    using assms(2) by (simp add: optimizer_step_def)
  from assms(1) have a: "arguments (snd (optimizer ms time kwargs ?w)) = arguments ?w"
    and b: "\<exists>es. trace (snd (optimizer ms time kwargs ?w)) = trace ?w @ es \<and> writes es = []"
    unfolding leaves_arguments_def by blast+
  show "arguments w1 = arguments w" using a e by simp
  show "\<exists>es. trace w1 = trace w @ StepCall (arguments w) # es \<and> writes es = []"
    using b e by simp
qed

lemma step_body_frame:
  assumes "leaves_arguments (optimizer ms time kwargs)"
  shows "(step_body ms time kwargs ^^ n) (d, w) = (d', w') \<Longrightarrow>
     arguments w' = arguments w \<and> (\<exists>es. trace w' = trace w @ es \<and> writes es = [])"
proof (induction n arbitrary: d' w')
  case 0
  then show ?case by simp
next
  case (Suc n)
  obtain d1 w1 where m: "(step_body ms time kwargs ^^ n) (d, w) = (d1, w1)"
    by (cases "(step_body ms time kwargs ^^ n) (d, w)") auto
  obtain d2 w2 where s: "optimizer_step ms time kwargs w1 = (d2, w2)"
    by (cases "optimizer_step ms time kwargs w1") auto
  have "step_body ms time kwargs (d1, w1) = (d', w')" using Suc.prems m by simp
  then have w': "w' = w2" using s by (simp add: step_body_def)
  from Suc.IH [OF m] obtain es where ih: "arguments w1 = arguments w"
    "trace w1 = trace w @ es" "writes es = []" by blast
  from optimizer_step_frame [OF assms s] obtain es' where st: "arguments w2 = arguments w1"
    "trace w2 = trace w1 @ StepCall (arguments w1) # es'" "writes es' = []" by blast
  have t: "trace w' = trace w @ (es @ StepCall (arguments w1) # es')"
    using ih st w' by simp
  have e: "writes (es @ StepCall (arguments w1) # es') = []"
    using ih st by (simp add: writes_append)
  have a: "arguments w' = arguments w" using w' ih st by simp
  have "\<exists>es. trace w' = trace w @ es \<and> writes es = []"
    by (rule exI [of _ "es @ StepCall (arguments w1) # es'"]) (simp add: t e)
  with a show ?case by (rule conjI)
qed

lemmas example_defs = quadratic_loss_def counting_source_def constant_source_def two_samples_def
  three_samples_def start_def constant_step_def three_steps_def

lemmas step_defs = Evolutionary_tf_step_def sampling_def first_sample_def unrolled_iteration_def
  body_def fn_loss_call_def draw_perturbations_def apply_step_def Let_def shape_def
  random_normal_def mul_scalar_def scalar_mul_def tensor_add_def tensor_sub_def div_int_def
  identity_operation_def tf_always_true_def



lemma three_steps_run:
  "MultiStep_tf_step three_steps () (Some (\<lambda>a vs. 7)) () start =
     Inr ([[3]],
          \<lparr>variables = [[3]], arguments = [(''batch'', 5), (''reference'', 7)], draws = 0,
           trace = [ReferenceCall [(''batch'', 5)] [[0]], SetItem ''reference'' 7,
                    StepCall [(''batch'', 5), (''reference'', 7)], ApplyStep [[1]] [[1]],
                    StepCall [(''batch'', 5), (''reference'', 7)], ApplyStep [[1]] [[2]],
                    StepCall [(''batch'', 5), (''reference'', 7)], ApplyStep [[1]] [[3]]]\<rparr>)"
  by (simp add: MultiStep_tf_step_def example_defs set_reference_def optimizer_step_def
      step_body_def unrolled_step_def step_defs eval_nat_numeral)

lemma three_steps_runs:
  "run_steps (optimizer_step three_steps () ()) (nat (num_steps three_steps))
       (set_reference (\<lambda>a vs. 7) start) =
     ([[[1]], [[1]], [[1]]],
      \<lparr>variables = [[3]], arguments = [(''batch'', 5), (''reference'', 7)], draws = 0,
           trace = [ReferenceCall [(''batch'', 5)] [[0]], SetItem ''reference'' 7,
                    StepCall [(''batch'', 5), (''reference'', 7)], ApplyStep [[1]] [[1]],
                    StepCall [(''batch'', 5), (''reference'', 7)], ApplyStep [[1]] [[2]],
                    StepCall [(''batch'', 5), (''reference'', 7)], ApplyStep [[1]] [[3]]]\<rparr>)"
  by (simp add: example_defs set_reference_def optimizer_step_def step_defs eval_nat_numeral)

lemma constant_step_leaves_arguments: "leaves_arguments (constant_step t k)"
  by (simp add: leaves_arguments_def constant_step_def apply_step_def Let_def)


section \<open>Results\<close>


text \<open>
  C2.  With \<open>num_steps = k\<close>, the deltas a MultiStep step returns are, component by
  component, the sum of the \<open>k\<close> delta sequences that \<open>k\<close> invocations of the wrapped
  optimizer's step produce, each invocation running on the state the one before left (after
  the reference has been set); the state returned is the one the last invocation left.  The
  delta sequences are taken to agree in shape.  The statement holds for either value of
  \<open>unroll_loop\<close>.
\<close>

theorem multi_step_sums_inner_steps:
  assumes "0 < num_steps ms"
    and "MultiStep_tf_step ms time (Some f) kwargs w = Inr (deltas, w')"
    and "run_steps (optimizer_step ms time kwargs) (nat (num_steps ms)) (set_reference f w) = (dss, wk)"
    and "\<forall>ds \<in> set dss. map length ds = shp"
  shows "w' = wk \<and> length dss = nat (num_steps ms) \<and> map length deltas = shp \<and>
         (\<forall>i<length shp. \<forall>j<shp ! i. deltas ! i ! j = (\<Sum>ds\<leftarrow>dss. ds ! i ! j))"
proof -
  define n where "n = nat (num_steps ms - 1)"
  have k: "nat (num_steps ms) = Suc n" using assms(1) by (simp add: n_def)
  obtain d w1 where s: "optimizer_step ms time kwargs (set_reference f w) = (d, w1)"
    by (cases "optimizer_step ms time kwargs (set_reference f w)") auto
  obtain ds w2 where r: "run_steps (optimizer_step ms time kwargs) n w1 = (ds, w2)"
    by (cases "run_steps (optimizer_step ms time kwargs) n w1") auto
  have dss: "dss = d # ds" and wk: "wk = w2"
    using assms(3) s r unfolding k by simp_all
  have res: "deltas = foldl (map2 tensor_add) d ds" "w' = w2"
    using assms(2) s r by (simp_all add: MultiStep_funpow step_body_run n_def)
  have shd: "map length d = shp" and shs: "\<forall>x \<in> set ds. map length x = map length d"
    using assms(4) dss by simp_all
  note f = foldl_sum_nth [OF shs]
  have len: "length d = length shp" using shd by (metis length_map)
  have a: "map length deltas = shp" using f shd res(1) by simp
  have b: "deltas ! i ! j = (\<Sum>x\<leftarrow>dss. x ! i ! j)" if "i < length shp" "j < shp ! i" for i j
  proof -
    have "i < length d" using that len by simp
    moreover have "j < length (d ! i)"
      using that len shd by (metis nth_map)
    ultimately show ?thesis
      using foldl_sum_nth [OF shs, of i j] res(1) dss by simp
  qed
  show ?thesis
    using a b res(2) wk run_steps_length [OF assms(3)] by simp
qed

theorem multi_step_sums_inner_steps_witness:
  "0 < num_steps three_steps
   \<and> map (map length) [[[1]], [[1]], [[1::real]]] = [[1], [1], [1]]
   \<and> MultiStep_tf_step three_steps () (Some (\<lambda>a vs. 7)) () start =
     Inr ([[3]],
          \<lparr>variables = [[3]], arguments = [(''batch'', 5), (''reference'', 7)], draws = 0,
           trace = [ReferenceCall [(''batch'', 5)] [[0]], SetItem ''reference'' 7,
                    StepCall [(''batch'', 5), (''reference'', 7)], ApplyStep [[1]] [[1]],
                    StepCall [(''batch'', 5), (''reference'', 7)], ApplyStep [[1]] [[2]],
                    StepCall [(''batch'', 5), (''reference'', 7)], ApplyStep [[1]] [[3]]]\<rparr>)
   \<and> [[3::real]] ! 0 ! 0 = (\<Sum>ds\<leftarrow>[[[1]], [[1]], [[1]]]. ds ! 0 ! 0)"
proof -
  have pos: "0 < num_steps three_steps" by (simp add: three_steps_def)
  have sh: "\<forall>ds \<in> set [[[1]], [[1]], [[1::real]]]. map length ds = [1]" by simp
  from multi_step_sums_inner_steps [OF pos three_steps_run three_steps_runs sh]
  have "[[3::real]] ! 0 ! 0 = (\<Sum>ds\<leftarrow>[[[1]], [[1]], [[1]]]. ds ! 0 ! 0)" by simp
  then show ?thesis using pos three_steps_run by simp
qed







text \<open>
  C5.  A call of \<open>MultiStep.tf_step\<close> that leaves \<open>fn_reference\<close> at its default
  \<open>None\<close> does not succeed: line 60 calls it without a guard, which raises \<open>TypeError\<close>.
\<close>

theorem missing_reference_raises:
  "MultiStep_tf_step self time None kwargs w = Inl TypeError"
  by (simp add: MultiStep_tf_step_def)





text \<open>
  C7.  Construction succeeds exactly when the arguments pass the type checks and are
  positive (\<open>learning_rate\<close> a float above 0, \<open>num_samples\<close> or \<open>num_steps\<close> an
  \<open>int\<close> above 0, \<open>unroll_loop\<close> a \<open>bool\<close>; defaults 1, 10 and \<open>False\<close>), and then
  stores the given values in the fields; every other configuration is rejected with an
  \<open>AssertionError\<close>.  No configuration whatever makes a step with a reference function
  fail, and the step of the evolutionary optimizer has no failure at all.
\<close>

theorem configuration_checked_at_construction:
  "Evolutionary_init nm lr ns ul =
     (if isinstance_float lr \<and> 0 < float_of lr
         \<and> isinstance_int (case ns of None \<Rightarrow> PyInt 1 | Some v \<Rightarrow> v)
         \<and> 0 < int_of (case ns of None \<Rightarrow> PyInt 1 | Some v \<Rightarrow> v)
         \<and> isinstance_bool (case ul of None \<Rightarrow> PyBool False | Some v \<Rightarrow> v)
      then Inr \<lparr>name = nm, unroll_loop = bool_of (case ul of None \<Rightarrow> PyBool False | Some v \<Rightarrow> v),
                learning_rate = float_of lr,
                num_samples = int_of (case ns of None \<Rightarrow> PyInt 1 | Some v \<Rightarrow> v)\<rparr>
      else Inl AssertionError)
   \<and> MultiStep_init nm opt ks ul =
     (if isinstance_int (case ks of None \<Rightarrow> PyInt 10 | Some v \<Rightarrow> v)
         \<and> 0 < int_of (case ks of None \<Rightarrow> PyInt 10 | Some v \<Rightarrow> v)
         \<and> isinstance_bool (case ul of None \<Rightarrow> PyBool False | Some v \<Rightarrow> v)
      then Inr \<lparr>name = nm, unroll_loop = bool_of (case ul of None \<Rightarrow> PyBool False | Some v \<Rightarrow> v),
                optimizer = opt,
                num_steps = int_of (case ks of None \<Rightarrow> PyInt 10 | Some v \<Rightarrow> v)\<rparr>
      else Inl AssertionError)
   \<and> (\<exists>r. MultiStep_tf_step ms time (Some f) kwargs w = Inr r)"
  by (simp add: Evolutionary_init_def MultiStep_init_def MultiStep_funpow Let_def)


text \<open>
  C8.  An Evolutionary step leaves the arguments mapping as it found it, writes nothing into
  it, and hands every evaluation of the loss that same mapping.  A MultiStep step that
  succeeds writes into the mapping once, before the first call of the wrapped optimizer's
  step: it sets the entry \<open>reference\<close> and changes no other entry (the wrapped optimizer
  being one that does not write into the mapping itself).
\<close>

theorem arguments_frame:
  "(arguments (snd (Evolutionary_tf_step self rnd fn_loss w)) = arguments w
    \<and> writes (new_events w (snd (Evolutionary_tf_step self rnd fn_loss w))) = []
    \<and> map fst (loss_calls (new_events w (snd (Evolutionary_tf_step self rnd fn_loss w)))) =
        replicate (Suc (Suc (nat (num_samples self - 1)))) (arguments w))
   \<and> (leaves_arguments (optimizer ms time kwargs) \<longrightarrow>
      MultiStep_tf_step ms time (Some f) kwargs v = Inr (deltas, v') \<longrightarrow>
        arguments v' = AList.update ''reference'' (f (arguments v) (variables v)) (arguments v)
        \<and> map_of (arguments v') = (map_of (arguments v))(''reference'' \<mapsto> f (arguments v) (variables v))
        \<and> (\<exists>es. new_events v v' =
               [ReferenceCall (arguments v) (variables v),
                SetItem ''reference'' (f (arguments v) (variables v)),
                StepCall (arguments v')] @ es
             \<and> writes es = []))"
proof (intro conjI impI)
  define k where "k = nat (num_samples self - 1)"
  obtain deltas0 where tr: "trace (snd (Evolutionary_tf_step self rnd fn_loss w)) =
      trace w @ (LossCall (arguments w) (variables w) # events_at self rnd w k @
              [ApplyStep (map2 tensor_sub deltas0 (perturbations_at self rnd w k))
                 (map2 tensor_add (variables w) deltas0)])"
    by (simp add: Evolutionary_tf_step_closed Let_def k_def)
  show "arguments (snd (Evolutionary_tf_step self rnd fn_loss w)) = arguments w"
    by (simp add: Evolutionary_tf_step_closed Let_def)
  show "writes (new_events w (snd (Evolutionary_tf_step self rnd fn_loss w))) = []"
    unfolding new_events_append [OF tr] by (simp add: writes_append writes_events_at)
  show "map fst (loss_calls (new_events w (snd (Evolutionary_tf_step self rnd fn_loss w)))) =
        replicate (Suc (Suc (nat (num_samples self - 1)))) (arguments w)"
    unfolding new_events_append [OF tr] k_def [symmetric]
    by (simp add: loss_calls_append loss_calls_events_at comp_def map_replicate_const del: upt_Suc)
next
  assume frame: "leaves_arguments (optimizer ms time kwargs)"
    and run: "MultiStep_tf_step ms time (Some f) kwargs v = Inr (deltas, v')"
  let ?r = "f (arguments v) (variables v)"
  let ?v0 = "set_reference f v"
  obtain d1 v1 where s: "optimizer_step ms time kwargs ?v0 = (d1, v1)"
    by (cases "optimizer_step ms time kwargs ?v0") auto
  have loop: "(step_body ms time kwargs ^^ nat (num_steps ms - 1)) (d1, v1) = (deltas, v')"
    using run s by (simp add: MultiStep_funpow)
  have a0: "arguments ?v0 = AList.update ''reference'' ?r (arguments v)"
    and t0: "trace ?v0 = trace v @ [ReferenceCall (arguments v) (variables v), SetItem ''reference'' ?r]"
    by (simp_all add: set_reference_def Let_def)
  from optimizer_step_frame [OF frame s] obtain es1 where st: "arguments v1 = arguments ?v0"
    "trace v1 = trace ?v0 @ StepCall (arguments ?v0) # es1" "writes es1 = []" by blast
  from step_body_frame [OF frame loop] obtain es2 where lp: "arguments v' = arguments v1"
    "trace v' = trace v1 @ es2" "writes es2 = []" by blast
  show args: "arguments v' = AList.update ''reference'' ?r (arguments v)"
    using lp st a0 by simp
  show "map_of (arguments v') = (map_of (arguments v))(''reference'' \<mapsto> ?r)"
    unfolding args by (rule update_conv')
  have "trace v' = trace v @ ([ReferenceCall (arguments v) (variables v), SetItem ''reference'' ?r,
            StepCall (arguments v')] @ (es1 @ es2))"
    using lp st t0 by simp
  then have "new_events v v' = [ReferenceCall (arguments v) (variables v), SetItem ''reference'' ?r,
            StepCall (arguments v')] @ (es1 @ es2)"
    by (rule new_events_append)
  moreover have "writes (es1 @ es2) = []" using st lp by (simp add: writes_append)
  ultimately show "\<exists>es. new_events v v' =
               [ReferenceCall (arguments v) (variables v),
                SetItem ''reference'' ?r, StepCall (arguments v')] @ es \<and> writes es = []"
    by blast
qed

theorem arguments_frame_witness:
  "leaves_arguments (optimizer three_steps () ())
   \<and> MultiStep_tf_step three_steps () (Some (\<lambda>a vs. 7)) () start =
     Inr ([[3]],
          \<lparr>variables = [[3]], arguments = [(''batch'', 5), (''reference'', 7)], draws = 0,
           trace = [ReferenceCall [(''batch'', 5)] [[0]], SetItem ''reference'' 7,
                    StepCall [(''batch'', 5), (''reference'', 7)], ApplyStep [[1]] [[1]],
                    StepCall [(''batch'', 5), (''reference'', 7)], ApplyStep [[1]] [[2]],
                    StepCall [(''batch'', 5), (''reference'', 7)], ApplyStep [[1]] [[3]]]\<rparr>)
   \<and> [(''batch'', 5), (''reference'', 7)] = AList.update ''reference'' 7 (arguments start)
   \<and> arguments (snd (Evolutionary_tf_step two_samples counting_source quadratic_loss start)) =
       [(''batch'', 5)]"
proof -
  have fr: "leaves_arguments (optimizer three_steps () ())"
    using constant_step_leaves_arguments by (simp add: three_steps_def)
  note inst = arguments_frame [where self = two_samples and rnd = counting_source
      and fn_loss = quadratic_loss and w = start and ms = three_steps and time = "()"
      and kwargs = "()" and f = "\<lambda>a vs. 7" and v = start and deltas = "[[3]]"
      and v' = "\<lparr>variables = [[3]], arguments = [(''batch'', 5), (''reference'', 7)], draws = 0,
           trace = [ReferenceCall [(''batch'', 5)] [[0]], SetItem ''reference'' 7,
                    StepCall [(''batch'', 5), (''reference'', 7)], ApplyStep [[1]] [[1]],
                    StepCall [(''batch'', 5), (''reference'', 7)], ApplyStep [[1]] [[2]],
                    StepCall [(''batch'', 5), (''reference'', 7)], ApplyStep [[1]] [[3]]]\<rparr>"]
  have a: "arguments (snd (Evolutionary_tf_step two_samples counting_source quadratic_loss start)) =
          [(''batch'', 5)]"
    using inst by (simp add: start_def)
  have b: "[(''batch'', 5), (''reference'', 7)] = AList.update ''reference'' 7 (arguments start)"
    using inst fr three_steps_run by simp
  show ?thesis using fr three_steps_run a b by blast
qed






end
